theory Spec2Isabelle
  imports Complex_Main "HOL-Library.AList" "HOL-Library.Word"
begin

section \<open>The result grid of the image search front end\<close>

text \<open>
  The development follows the script of the grid component \<^verbatim>\<open>ImageGrid.vue\<close> in the
  version that removes single results, refills the freed slot from a following page and
  exports the page as an archive of square thumbnails. Every function of the script is a
  function here under its own name. An \<^verbatim>\<open>async\<close> function is cut at its
  \<^verbatim>\<open>await\<close>s: one function for the part that runs when it is called, one for each
  continuation. What the continuation has captured (the index, the page of the cursor)
  is an argument of it; what it reads again (the props, the collection, the cursor) comes
  from the state it resumes in.

  The sources hold two versions of the script. This is the later one, the text that
  follows \<^verbatim>\<open>vite.config.js\<close>: it has \<^verbatim>\<open>removeImageAt\<close> and the cursor
  \<^verbatim>\<open>nextFetchPage\<close>, and it draws every exported image on a canvas. The earlier one,
  under the name of the component, has neither; its \<^verbatim>\<open>fetchImages\<close>, its navigation
  and the names it gives to the archive and its entries are the same.

  The numbers of the script (page, total, indices) are integers.
\<close>

subsection \<open>Strings\<close>

text \<open>
  A string of the script is a sequence of 16-bit code units. A literal of the script that
  is plain ASCII is written \<open>lit\<close> of its characters; any other string is the list of
  its code units.
\<close>

type_synonym code_unit = "16 word"

type_synonym js_string = "code_unit list"

abbreviation code_of :: "char \<Rightarrow> code_unit" where
  "code_of \<equiv> of_char"

primrec lit :: "string \<Rightarrow> js_string" where
  "lit [] = []"
| "lit (c # cs) = code_of c # lit cs"

subsection \<open>Data\<close>

text \<open>One search hit as the endpoint returns it.\<close>

record item =
  item_id :: js_string
  download_url :: js_string
  alt_description :: "js_string option"

text \<open>
  An element of \<^verbatim>\<open>images.value\<close>: a hit, or the object
  \<^verbatim>\<open>{ __placeholder: true }\<close>, which has no other field.
\<close>

datatype slot = Item item | Placeholder

text \<open>
  The message shown in place of the grid. The two fallback texts of the script are
  literals in Russian; they are constructors here. The one of \<^verbatim>\<open>downloadZip\<close> is
  never shown in this model: the archive library and the calls that save the file are
  taken not to throw.
\<close>

datatype error_text = Text js_string | LoadFailedText | ZipFailedText

text \<open>The query string of a request to \<^verbatim>\<open>/search\<close>.\<close>

record request =
  req_query :: js_string
  req_page :: int
  req_per_page :: int

text \<open>The parsed body: \<^verbatim>\<open>data.error\<close>, \<^verbatim>\<open>data.results\<close>, \<^verbatim>\<open>data.total\<close>, each possibly absent.\<close>

record search_data =
  data_error :: "js_string option"
  data_results :: "item list option"
  data_total :: "int option"

text \<open>
  What \<^verbatim>\<open>await fetch(url)\<close> followed by \<^verbatim>\<open>await res.json()\<close> can give: the
  fetch rejects with an error of some message, or it answers with a status and a body.
  The body is an object with the three fields, or it is of no use: it does not parse, or
  reading a field of it throws (\<open>Inl\<close>, with the message of the error). The script
  touches no state between the two \<^verbatim>\<open>await\<close>s, so they are one step here.
\<close>

datatype response = Rejected js_string | Responded nat "js_string + search_data"

text \<open>The reactive state of the component, its props and the variable \<^verbatim>\<open>nextFetchPage\<close>.\<close>

record grid =
  searchQuery :: js_string
  page :: int
  images :: "slot list"
  loading :: bool
  error :: "error_text option"
  total :: int
  nextFetchPage :: int
  removingIndexes :: "int set"

definition perPage :: int where
  "perPage = 50"

subsection \<open>Numbers in template literals\<close>

text \<open>The decimal digit of a value below ten.\<close>

definition digit_char :: "nat \<Rightarrow> code_unit" where
  "digit_char d = lit ''0123456789'' ! d"

fun show_nat :: "nat \<Rightarrow> js_string" where
  "show_nat n = (if n < 10 then [digit_char n] else show_nat (n div 10) @ [digit_char (n mod 10)])"

declare show_nat.simps [simp del]

definition show_int :: "int \<Rightarrow> js_string" where
  "show_int i = (if i < 0 then (code_of CHR ''-'') # show_nat (nat (- i)) else show_nat (nat i))"

subsection \<open>Array.prototype.splice at a non-negative start\<close>

text \<open>
  \<^verbatim>\<open>xs.splice(i, 1, v)\<close> and \<^verbatim>\<open>xs.splice(i, 1)\<close> for \<open>0 \<le> i\<close>. A start beyond the
  end is the end and nothing is deleted there, so the first appends \<open>v\<close> and the second
  leaves the array as it is; \<open>take\<close> and \<open>drop\<close> do the same.
\<close>

definition splice_replace :: "nat \<Rightarrow> 'a \<Rightarrow> 'a list \<Rightarrow> 'a list" where
  "splice_replace i v xs = take i xs @ v # drop (Suc i) xs"

definition splice_remove :: "nat \<Rightarrow> 'a list \<Rightarrow> 'a list" where
  "splice_remove i xs = take i xs @ drop (Suc i) xs"

subsection \<open>fetchImages\<close>

text \<open>\<^verbatim>\<open>res.ok\<close>: the status is in the range 200 to 299.\<close>

definition res_ok :: "nat \<Rightarrow> bool" where
  "res_ok st = (200 \<le> st \<and> st \<le> 299)"

text \<open>
  The part of \<^verbatim>\<open>fetchImages\<close> before its first \<^verbatim>\<open>await\<close>. The second component is
  the request handed to \<^verbatim>\<open>fetch\<close>, if there is one.
\<close>

definition fetchImages_start :: "grid \<Rightarrow> grid \<times> request option" where
  "fetchImages_start s =
     (if searchQuery s = [] then (s\<lparr>images := []\<rparr>, None)
      else (s\<lparr>loading := True, error := None\<rparr>,
            Some \<lparr>req_query = searchQuery s, req_page = page s, req_per_page = perPage\<rparr>))"

text \<open>
  The \<^verbatim>\<open>try\<close> block after the \<^verbatim>\<open>await\<close>s up to its assignments: \<open>Inl m\<close> when an
  error of message \<open>m\<close> is thrown, \<open>Inr d\<close> when the body \<open>d\<close> is accepted. A
  \<^verbatim>\<open>data.error\<close> that is the empty string is falsy and does not throw.
\<close>

definition fetchImages_outcome :: "response \<Rightarrow> js_string + search_data" where
  "fetchImages_outcome r =
     (case r of
        Rejected m \<Rightarrow> Inl m
      | Responded st body \<Rightarrow>
          if \<not> res_ok st then Inl ((lit ''HTTP '') @ show_nat st)
          else (case body of
                  Inl m \<Rightarrow> Inl m
                | Inr d \<Rightarrow>
                    (case data_error d of
                       None \<Rightarrow> Inr d
                     | Some e \<Rightarrow> if e = [] then Inr d else Inl e)))"

text \<open>
  The continuation of \<^verbatim>\<open>fetchImages\<close>: the assignments of the \<^verbatim>\<open>try\<close> block, or
  the \<^verbatim>\<open>catch\<close> block, then \<^verbatim>\<open>finally\<close>. It reads \<^verbatim>\<open>props.page\<close> when it runs.
\<close>

definition fetchImages_resolve :: "response \<Rightarrow> grid \<Rightarrow> grid" where
  "fetchImages_resolve r s =
     (case fetchImages_outcome r of
        Inr d \<Rightarrow>
          s\<lparr>images := (case data_results d of None \<Rightarrow> [] | Some rs \<Rightarrow> map Item rs),
            total := (case data_total d of None \<Rightarrow> 0 | Some t \<Rightarrow> t),
            nextFetchPage := page s + 1,
            loading := False\<rparr>
      | Inl m \<Rightarrow>
          s\<lparr>error := Some (if m = [] then LoadFailedText else Text m),
            images := [],
            loading := False\<rparr>)"

subsection \<open>Page navigation\<close>

text \<open>\<^verbatim>\<open>nextPage\<close> and \<^verbatim>\<open>prevPage\<close>: the value emitted as \<^verbatim>\<open>update:page\<close>, if any.\<close>

definition nextPage :: "grid \<Rightarrow> int option" where
  "nextPage s = (if page s < 10 then Some (page s + 1) else None)"

definition prevPage :: "grid \<Rightarrow> int option" where
  "prevPage s = (if page s > 1 then Some (page s - 1) else None)"

text \<open>The \<^verbatim>\<open>:disabled\<close> bindings of the two navigation buttons in the template.\<close>

definition next_disabled :: "grid \<Rightarrow> bool" where
  "next_disabled s = (int (length (images s)) < perPage)"

definition prev_disabled :: "grid \<Rightarrow> bool" where
  "prev_disabled s = (page s \<le> 1)"

subsection \<open>removeImageAt\<close>

text \<open>
  The part of \<^verbatim>\<open>removeImageAt\<close> before the timer: the guard on the index and the
  mark for the transition. The flag tells whether the function goes on to wait.
\<close>

definition removeImageAt_start :: "int \<Rightarrow> grid \<Rightarrow> grid \<times> bool" where
  "removeImageAt_start index s =
     (if index < 0 \<or> index \<ge> int (length (images s)) then (s, False)
      else (s\<lparr>removingIndexes := insert index (removingIndexes s)\<rparr>, True))"

text \<open>
  The part between the timer and the \<^verbatim>\<open>fetch\<close>: the placeholder goes in at the
  captured index, the total goes down while it is positive, the cursor is captured as
  \<^verbatim>\<open>fetchPage\<close> and the request for one item is handed to \<^verbatim>\<open>fetch\<close>.
\<close>

definition removeImageAt_settle :: "int \<Rightarrow> grid \<Rightarrow> grid \<times> int \<times> request" where
  "removeImageAt_settle index s =
     (let s' = s\<lparr>images := splice_replace (nat index) Placeholder (images s),
                  total := (if total s > 0 then total s - 1 else total s)\<rparr>;
          fetchPage = nextFetchPage s'
      in (s', fetchPage,
          \<lparr>req_query = searchQuery s', req_page = fetchPage, req_per_page = 1\<rparr>))"

text \<open>
  \<^verbatim>\<open>(data.results && data.results[0]) || null\<close> of an answer with \<^verbatim>\<open>res.ok\<close>;
  \<open>None\<close> as well when the status is not ok, when the fetch rejects and when the body
  does not parse: the three branches that end in \<^verbatim>\<open>images.value.splice(index, 1)\<close>.
\<close>

definition first_result :: "response \<Rightarrow> item option" where
  "first_result r =
     (case r of
        Rejected m \<Rightarrow> None
      | Responded st body \<Rightarrow>
          if res_ok st then
            (case body of
               Inl m \<Rightarrow> None
             | Inr d \<Rightarrow>
                 (case data_results d of
                    None \<Rightarrow> None
                  | Some [] \<Rightarrow> None
                  | Some (x # xs) \<Rightarrow> Some x))
          else None)"

text \<open>
  The continuation after the \<^verbatim>\<open>fetch\<close>, with the captured \<^verbatim>\<open>index\<close> and
  \<^verbatim>\<open>fetchPage\<close>, then \<^verbatim>\<open>finally\<close>.
\<close>

definition removeImageAt_resolve :: "int \<Rightarrow> int \<Rightarrow> response \<Rightarrow> grid \<Rightarrow> grid" where
  "removeImageAt_resolve index fetchPage r s =
     (let s' = (case first_result r of
                  Some it \<Rightarrow>
                    s\<lparr>images := splice_replace (nat index) (Item it) (images s),
                      nextFetchPage := fetchPage + 1\<rparr>
                | None \<Rightarrow> s\<lparr>images := splice_remove (nat index) (images s)\<rparr>)
      in s'\<lparr>removingIndexes := removingIndexes s' - {index}\<rparr>)"

subsection \<open>The component as a transition system\<close>

text \<open>
  What is suspended at an \<^verbatim>\<open>await\<close>, with what it has captured: a call of
  \<^verbatim>\<open>fetchImages\<close> waiting for its answer, a call of \<^verbatim>\<open>removeImageAt\<close> waiting
  for the timer (with its index), or for its answer (with its index and \<^verbatim>\<open>fetchPage\<close>).
  The request each fetch was sent with is kept beside it.
\<close>

datatype task = PageFetch request | SettleTimer int | ReplacementFetch int int request

record system =
  grid_of :: grid
  pending :: "task list"
  sent :: "request list"

text \<open>
  The callback of the watcher: \<^verbatim>\<open>fetchImages\<close> is called; the request it hands to
  \<^verbatim>\<open>fetch\<close>, if any, is recorded and its continuation is suspended.
\<close>

definition watch_callback :: "system \<Rightarrow> system" where
  "watch_callback sys =
     (case fetchImages_start (grid_of sys) of
        (g, None) \<Rightarrow> sys\<lparr>grid_of := g\<rparr>
      | (g, Some req) \<Rightarrow>
          sys\<lparr>grid_of := g, pending := pending sys @ [PageFetch req], sent := sent sys @ [req]\<rparr>)"

text \<open>
  The events: the parent sets the props, an image is double-clicked, a timer elapses, a
  fetch completes with some answer. The watcher runs its callback when one of the two
  props has a new value, not when both are set to what they are. The template binds the
  double click to live images only; \<^verbatim>\<open>removeImageAt\<close> itself accepts every index.
\<close>

datatype event =
    SetProps js_string int
  | DblClick int
  | TimerElapsed int
  | FetchDone task response

fun step :: "event \<Rightarrow> system \<Rightarrow> system" where
  "step (SetProps q p) sys =
     (if q = searchQuery (grid_of sys) \<and> p = page (grid_of sys) then sys
      else watch_callback (sys\<lparr>grid_of := (grid_of sys)\<lparr>searchQuery := q, page := p\<rparr>\<rparr>))"
| "step (DblClick i) sys =
     (case removeImageAt_start i (grid_of sys) of
        (g, waits) \<Rightarrow>
          sys\<lparr>grid_of := g, pending := pending sys @ (if waits then [SettleTimer i] else [])\<rparr>)"
| "step (TimerElapsed i) sys =
     (if SettleTimer i \<in> set (pending sys) then
        (case removeImageAt_settle i (grid_of sys) of
           (g, fetchPage, req) \<Rightarrow>
             sys\<lparr>grid_of := g,
                 pending := remove1 (SettleTimer i) (pending sys) @ [ReplacementFetch i fetchPage req],
                 sent := sent sys @ [req]\<rparr>)
      else sys)"
| "step (FetchDone t r) sys =
     (if t \<in> set (pending sys) then
        (case t of
           PageFetch req \<Rightarrow>
             sys\<lparr>grid_of := fetchImages_resolve r (grid_of sys), pending := remove1 t (pending sys)\<rparr>
         | ReplacementFetch i fetchPage req \<Rightarrow>
             sys\<lparr>grid_of := removeImageAt_resolve i fetchPage r (grid_of sys),
                 pending := remove1 t (pending sys)\<rparr>
         | SettleTimer i \<Rightarrow> sys)
      else sys)"

definition run :: "event list \<Rightarrow> system \<Rightarrow> system" where
  "run es sys = foldl (\<lambda>s e. step e s) sys es"

text \<open>
  The component at setup with the props \<open>q\<close> and \<open>p\<close>, and after the run of the
  callback that the option \<^verbatim>\<open>immediate\<close> asks for.
\<close>

definition setup_grid :: "js_string \<Rightarrow> int \<Rightarrow> grid" where
  "setup_grid q p =
     \<lparr>searchQuery = q, page = p, images = [], loading = False, error = None, total = 0,
      nextFetchPage = p + 1, removingIndexes = {}\<rparr>"

definition mount :: "js_string \<Rightarrow> int \<Rightarrow> system" where
  "mount q p = watch_callback \<lparr>grid_of = setup_grid q p, pending = [], sent = []\<rparr>"

subsection \<open>downloadZip\<close>

text \<open>
  \<^verbatim>\<open>String.prototype.replace(/\s+/g, '_')\<close>: the scan goes from left to right; at a
  white-space character the match takes every white-space character that follows, and
  one underscore replaces it. The class \<^verbatim>\<open>\s\<close> is the white space and the line
  terminators of the language: tab, line feed, vertical tab, form feed, carriage return,
  space, no-break space, U+1680, U+2000 to U+200A, U+2028, U+2029, U+202F, U+205F, U+3000
  and U+FEFF.
\<close>

definition is_space :: "code_unit \<Rightarrow> bool" where
  "is_space c =
     (c \<in> {0x9, 0xA, 0xB, 0xC, 0xD, 0x20, 0xA0, 0x1680, 0x2028, 0x2029, 0x202F, 0x205F,
            0x3000, 0xFEFF}
      \<or> (0x2000 \<le> c \<and> c \<le> 0x200A))"

function replace_spaces :: "js_string \<Rightarrow> js_string" where
  "replace_spaces [] = []"
| "replace_spaces (c # cs) =
     (if is_space c then (code_of CHR ''_'') # replace_spaces (dropWhile is_space cs)
      else c # replace_spaces cs)"
  by pat_completeness auto
termination
  by (relation "measure length") (auto simp: length_dropWhile_le less_Suc_eq_le)

definition folderName :: "grid \<Rightarrow> js_string" where
  "folderName s = (lit ''images_'') @ replace_spaces (searchQuery s) @ (lit ''_page'') @ show_int (page s)"

text \<open>
  \<^verbatim>\<open>String.prototype.split\<close> at a one-character separator: the pieces between the
  separators, one piece for a string without separator.
\<close>

fun split_at :: "code_unit \<Rightarrow> js_string \<Rightarrow> js_string list" where
  "split_at c [] = [[]]"
| "split_at c (x # xs) =
     (if x = c then [] # split_at c xs
      else (case split_at c xs of
              [] \<Rightarrow> [[x]]
            | w # ws \<Rightarrow> (x # w) # ws))"

text \<open>
  The browser as far as the export uses it. \<^verbatim>\<open>loadImage(url)\<close> resolves with an image
  element, of which the script reads the natural size, or rejects (\<open>None\<close>); its argument
  is \<^verbatim>\<open>img.download_url\<close>, which is \<^verbatim>\<open>undefined\<close> (\<open>None\<close>) for a placeholder. The
  script assigns it to \<^verbatim>\<open>img.src\<close> as it is, and the browser then asks for the relative
  address \<^verbatim>\<open>undefined\<close>; whether that load fails is up to the origin, so it is up to
  \<open>loadImage\<close> here. \<^verbatim>\<open>canvasToBlob(canvas)\<close> resolves with a blob or with \<^verbatim>\<open>null\<close>.
\<close>

record image_el =
  img_src :: "js_string option"
  naturalWidth :: nat
  naturalHeight :: nat

text \<open>The arguments of the one \<^verbatim>\<open>ctx.drawImage\<close> call.\<close>

record draw_image =
  d_image :: image_el
  d_sx :: int
  d_sy :: int
  d_sWidth :: int
  d_sHeight :: int
  d_dx :: int
  d_dy :: int
  d_dWidth :: int
  d_dHeight :: int

record canvas =
  canvas_width :: int
  canvas_height :: int
  drawn :: draw_image

record blob =
  blob_type :: js_string
  blob_content :: "nat list"

record browser =
  loadImage :: "js_string option \<Rightarrow> image_el option"
  canvasToBlob :: "canvas \<Rightarrow> blob option"

definition concurrency :: nat where
  "concurrency = 6"

definition size_px :: int where
  "size_px = 50"

text \<open>
  The canvas of one image: \<^verbatim>\<open>side\<close>, \<^verbatim>\<open>sx\<close> and \<^verbatim>\<open>sy\<close> as the script computes them
  (\<^verbatim>\<open>Math.floor\<close> of a quotient by two is the integer quotient), and the call
  \<^verbatim>\<open>ctx.drawImage(imageEl, sx, sy, side, side, 0, 0, size, size)\<close>.
\<close>

definition draw_cropped :: "image_el \<Rightarrow> canvas" where
  "draw_cropped imageEl =
     (let iw = int (naturalWidth imageEl);
          ih = int (naturalHeight imageEl);
          side = min iw ih;
          sx = (iw - side) div 2;
          sy = (ih - side) div 2
      in \<lparr>canvas_width = size_px, canvas_height = size_px,
          drawn = \<lparr>d_image = imageEl, d_sx = sx, d_sy = sy, d_sWidth = side, d_sHeight = side,
                   d_dx = 0, d_dy = 0, d_dWidth = size_px, d_dHeight = size_px\<rparr>\<rparr>)"

text \<open>
  The object one element of a batch resolves with: \<^verbatim>\<open>{ index, blob, mime }\<close>, or
  \<^verbatim>\<open>{ index, blob: null }\<close> from the \<^verbatim>\<open>catch\<close> block.
\<close>

record batch_result =
  r_index :: nat
  r_blob :: "blob option"
  r_mime :: "js_string option"

definition slot_url :: "slot \<Rightarrow> js_string option" where
  "slot_url img = (case img of Item it \<Rightarrow> Some (download_url it) | Placeholder \<Rightarrow> None)"

text \<open>
  The body of the \<^verbatim>\<open>map\<close> callback. A rejected load is caught; so is the
  \<^verbatim>\<open>TypeError\<close> of \<^verbatim>\<open>blob.type\<close> when the canvas gave \<^verbatim>\<open>null\<close>.
\<close>

definition process_image :: "browser \<Rightarrow> nat \<Rightarrow> slot \<Rightarrow> batch_result" where
  "process_image env index img =
     (case loadImage env (slot_url img) of
        None \<Rightarrow> \<lparr>r_index = index, r_blob = None, r_mime = None\<rparr>
      | Some imageEl \<Rightarrow>
          (case canvasToBlob env (draw_cropped imageEl) of
             None \<Rightarrow> \<lparr>r_index = index, r_blob = None, r_mime = None\<rparr>
           | Some b \<Rightarrow> \<lparr>r_index = index, r_blob = Some b, r_mime = Some (blob_type b)\<rparr>))"

text \<open>\<^verbatim>\<open>(r.mime && r.mime.split('/')[1]) || 'jpg'\<close>\<close>

definition ext_of :: "js_string option \<Rightarrow> js_string" where
  "ext_of mime =
     (case mime of
        None \<Rightarrow> (lit ''jpg'')
      | Some m \<Rightarrow>
          if m = [] then (lit ''jpg'')
          else (case split_at (code_of CHR ''/'') m of
                  w # e # ws \<Rightarrow> if e = [] then (lit ''jpg'') else e
                | _ \<Rightarrow> (lit ''jpg'')))"

definition entry_name :: "js_string \<Rightarrow> int \<Rightarrow> nat \<Rightarrow> js_string \<Rightarrow> js_string" where
  "entry_name folder pg index ext =
     folder @ (lit ''/image_'') @ show_int pg @ (lit ''_'') @ show_nat (index + 1) @ (lit ''.'') @ ext"

text \<open>
  The archive under construction: the files in the order of their first
  \<^verbatim>\<open>zip.file(name, data)\<close>; a second call with a name replaces the data of the first.
  Folder entries the library may add on its own are not part of it.
\<close>

type_synonym zip = "(js_string \<times> blob) list"

text \<open>The body of the \<^verbatim>\<open>forEach\<close> callback.\<close>

definition add_result :: "js_string \<Rightarrow> int \<Rightarrow> zip \<Rightarrow> batch_result \<Rightarrow> zip" where
  "add_result folder pg z r =
     (case r_blob r of
        None \<Rightarrow> z
      | Some b \<Rightarrow> AList.update (entry_name folder pg (r_index r) (ext_of (r_mime r))) b z)"

text \<open>
  \<^verbatim>\<open>downloadZip\<close> is suspended at \<^verbatim>\<open>await Promise.all(batch)\<close> once for every
  batch. What it keeps across that \<^verbatim>\<open>await\<close> are its locals: \<^verbatim>\<open>folderName\<close>,
  computed once, the archive \<^verbatim>\<open>zip\<close>, the loop variable \<^verbatim>\<open>i\<close>, and the batch, made
  of the slice of the collection that was taken before the \<^verbatim>\<open>await\<close>. The collection
  and the props are not among them: the script reads \<^verbatim>\<open>images.value\<close> and
  \<^verbatim>\<open>props.page\<close> again when it resumes, and it sets no flag that would keep the grid
  from being used in the meantime (its assignments to \<^verbatim>\<open>loading\<close> are commented out).
\<close>

record export_task =
  x_folder :: js_string
  x_zip :: zip
  x_index :: nat
  x_batch :: "slot list"

text \<open>The anchor that is clicked: its \<^verbatim>\<open>download\<close> attribute and the archive behind its URL.\<close>

record download =
  file_name :: js_string
  archive :: zip

text \<open>
  The part of \<^verbatim>\<open>downloadZip\<close> before its first \<^verbatim>\<open>await\<close>: the guard on the empty
  collection, the error reset, the folder name, and the first slice.
\<close>

definition downloadZip_start :: "grid \<Rightarrow> grid \<times> export_task option" where
  "downloadZip_start s =
     (if length (images s) = 0 then (s, None)
      else (s\<lparr>error := None\<rparr>,
            Some \<lparr>x_folder = folderName s, x_zip = [], x_index = 0,
                  x_batch = take concurrency (drop 0 (images s))\<rparr>))"

text \<open>
  The continuation after \<^verbatim>\<open>await Promise.all(batch)\<close>, in the state \<open>s\<close> the component
  is in by then: the \<^verbatim>\<open>forEach\<close> over the results of the batch, with the index
  \<open>i + idx\<close> of each and the page of the props as it is now; then \<^verbatim>\<open>i += concurrency\<close>
  and the test of the loop against the collection as it is now. Either the next slice is
  taken and the function is suspended again (\<open>Inl\<close>), or the archive is generated and
  saved under the folder name (\<open>Inr\<close>); the script reads no state after the loop, so
  the \<^verbatim>\<open>await\<close> of the generation is not a step of its own.
\<close>

definition downloadZip_resume :: "browser \<Rightarrow> export_task \<Rightarrow> grid \<Rightarrow> export_task + download" where
  "downloadZip_resume env t s =
     (let batchResults =
            map (\<lambda>(idx, img). process_image env (x_index t + idx) img) (enumerate 0 (x_batch t));
          z = foldl (add_result (x_folder t) (page s)) (x_zip t) batchResults;
          i = x_index t + concurrency
      in if i < length (images s)
         then Inl \<lparr>x_folder = x_folder t, x_zip = z, x_index = i,
                   x_batch = take concurrency (drop i (images s))\<rparr>
         else Inr \<lparr>file_name = x_folder t @ lit ''.zip'', archive = z\<rparr>)"

text \<open>
  A suspended export taken through the states in which its batches complete, one state
  for each batch; whatever the component does between two batches shows in these states.
  The export is still suspended (\<open>Inl\<close>) when the states run out before the loop ends.
\<close>

fun export_through :: "browser \<Rightarrow> export_task \<Rightarrow> grid list \<Rightarrow> export_task + download" where
  "export_through env t [] = Inl t"
| "export_through env t (g # gs) =
     (case downloadZip_resume env t g of
        Inr d \<Rightarrow> Inr d
      | Inl t' \<Rightarrow> export_through env t' gs)"

text \<open>The export when every batch completes in one and the same state \<open>s\<close>.\<close>

function export_alone :: "browser \<Rightarrow> grid \<Rightarrow> export_task \<Rightarrow> download" where
  "export_alone env s t =
     (case downloadZip_resume env t s of
        Inr d \<Rightarrow> d
      | Inl t' \<Rightarrow> export_alone env s t')"
  by pat_completeness auto
termination
  by (relation "measure (\<lambda>(env, s, t). length (images s) - x_index t)")
     (auto simp: downloadZip_resume_def Let_def concurrency_def split: if_splits)

declare export_alone.simps [simp del]

text \<open>
  \<^verbatim>\<open>downloadZip\<close> from its call to the saved file when nothing else is scheduled before
  it ends.
\<close>

definition downloadZip :: "browser \<Rightarrow> grid \<Rightarrow> grid \<times> download option" where
  "downloadZip env s =
     (case downloadZip_start s of
        (s', None) \<Rightarrow> (s', None)
      | (s', Some t) \<Rightarrow> (s', Some (export_alone env s' t)))"

subsection \<open>Example values\<close>

definition item_a :: item where
  "item_a = \<lparr>item_id = (lit ''a''), download_url = (lit ''https://img.example/a.jpg''), alt_description = None\<rparr>"

definition item_b :: item where
  "item_b = \<lparr>item_id = (lit ''b''), download_url = (lit ''https://img.example/b.jpg''), alt_description = None\<rparr>"

definition item_c :: item where
  "item_c = \<lparr>item_id = (lit ''c''), download_url = (lit ''https://img.example/c.jpg''), alt_description = None\<rparr>"

definition item_x :: item where
  "item_x = \<lparr>item_id = (lit ''x''), download_url = (lit ''https://img.example/x.jpg''), alt_description = None\<rparr>"

definition item_y :: item where
  "item_y = \<lparr>item_id = (lit ''y''), download_url = (lit ''https://img.example/y.jpg''), alt_description = None\<rparr>"

text \<open>An answer with the given hits and total, one with no hit, and a server error.\<close>

definition answer_with :: "item list \<Rightarrow> int \<Rightarrow> response" where
  "answer_with rs t =
     Responded 200 (Inr \<lparr>data_error = None, data_results = Some rs, data_total = Some t\<rparr>)"

definition answer_empty :: response where
  "answer_empty = answer_with [] 0"

definition answer_500 :: response where
  "answer_500 = Responded 500 (Inl (lit ''Internal Server Error''))"

text \<open>Page 1 of the query \<^verbatim>\<open>cat\<close> on display with three hits, nothing suspended.\<close>

definition cat_grid :: grid where
  "cat_grid =
     \<lparr>searchQuery = (lit ''cat''), page = 1, images = [Item item_a, Item item_b, Item item_c],
      loading = False, error = None, total = 3, nextFetchPage = 2, removingIndexes = {}\<rparr>"

definition cat_system :: system where
  "cat_system = \<lparr>grid_of = cat_grid, pending = [], sent = []\<rparr>"

text \<open>The requests of the full pages 1 and 2, and of one item from page 2.\<close>

definition req_page1 :: request where
  "req_page1 = \<lparr>req_query = (lit ''cat''), req_page = 1, req_per_page = 50\<rparr>"

definition req_page2 :: request where
  "req_page2 = \<lparr>req_query = (lit ''cat''), req_page = 2, req_per_page = 50\<rparr>"

definition req_overflow :: request where
  "req_overflow = \<lparr>req_query = (lit ''cat''), req_page = 2, req_per_page = 1\<rparr>"

text \<open>
  The component is mounted on page 1 and the page is set to 2 before the first answer has
  come; the answer for page 2 comes first (\<open>page2_shown\<close>), the one for page 1 after it
  (\<open>page1_late\<close>).
\<close>

definition page2_shown :: system where
  "page2_shown =
     run [SetProps (lit ''cat'') 2, FetchDone (PageFetch req_page2) (answer_with [item_x, item_y] 2)]
       (mount (lit ''cat'') 1)"

definition page1_late :: system where
  "page1_late =
     step (FetchDone (PageFetch req_page1) (answer_with [item_a, item_b, item_c] 3)) page2_shown"

text \<open>
  Page 1 comes back full, with fifty hits of a thousand (\<open>full_page\<close>); then the first
  image is double-clicked and the fetch for its replacement fails
  (\<open>full_page_less_one\<close>).
\<close>

definition numbered_item :: "nat \<Rightarrow> item" where
  "numbered_item n =
     \<lparr>item_id = show_nat n, download_url = (lit ''https://img.example/'') @ show_nat n @ (lit ''.jpg''),
      alt_description = None\<rparr>"

definition fifty_items :: "item list" where
  "fifty_items = map numbered_item [0..<50]"

definition full_page :: system where
  "full_page =
     step (FetchDone (PageFetch req_page1) (answer_with fifty_items 1000)) (mount (lit ''cat'') 1)"

definition full_page_less_one :: system where
  "full_page_less_one =
     run [DblClick 0, TimerElapsed 0, FetchDone (ReplacementFetch 0 2 req_overflow) answer_500]
       full_page"

text \<open>
  The page is set to 2 while the full page 1 is on display, and the fetch for page 2
  fails.
\<close>

definition page2_failed :: system where
  "page2_failed = run [SetProps (lit ''cat'') 2, FetchDone (PageFetch req_page2) answer_500] full_page"

text \<open>
  The first image is double-clicked and its timer elapses, then the second, before either
  answer has come.
\<close>

definition both_settled :: system where
  "both_settled = run [DblClick 0, TimerElapsed 0, DblClick 1, TimerElapsed 1] cat_system"

subsection \<open>What an answer puts on display\<close>

text \<open>
  The collection and the total that the continuation of \<^verbatim>\<open>fetchImages\<close> leaves for an
  answer: the hits and the total of an accepted body, no element and the total as it was
  otherwise.
\<close>

definition shown_images :: "response \<Rightarrow> slot list" where
  "shown_images r =
     (case fetchImages_outcome r of
        Inl m \<Rightarrow> []
      | Inr d \<Rightarrow> (case data_results d of None \<Rightarrow> [] | Some rs \<Rightarrow> map Item rs))"

definition shown_total :: "response \<Rightarrow> int \<Rightarrow> int" where
  "shown_total r old =
     (case fetchImages_outcome r of
        Inl m \<Rightarrow> old
      | Inr d \<Rightarrow> (case data_total d of None \<Rightarrow> 0 | Some t \<Rightarrow> t))"

subsection \<open>Reading a decimal numeral\<close>

text \<open>The value of a string of digits, used to tell the names of two entries apart.\<close>

definition digit_value :: "code_unit \<Rightarrow> nat" where
  "digit_value c = unat c - 48"

definition read_nat :: "js_string \<Rightarrow> nat" where
  "read_nat ds = foldl (\<lambda>a c. 10 * a + digit_value c) 0 ds"

subsection \<open>The export, slot by slot\<close>

text \<open>
  What the export makes of one slot, whatever its index: the blob of the cropped image,
  or nothing when the load is rejected or the canvas gives no blob.
\<close>

definition transcode :: "browser \<Rightarrow> slot \<Rightarrow> blob option" where
  "transcode env img =
     (case loadImage env (slot_url img) of
        None \<Rightarrow> None
      | Some imageEl \<Rightarrow> canvasToBlob env (draw_cropped imageEl))"

text \<open>
  The archive as a list over the collection in display order, from the index \<open>i\<close> on:
  one entry for each slot that has a blob, named by the index of the slot, none for the
  others.
\<close>

fun entries_from :: "browser \<Rightarrow> js_string \<Rightarrow> int \<Rightarrow> nat \<Rightarrow> slot list \<Rightarrow> zip" where
  "entries_from env folder pg i [] = []"
| "entries_from env folder pg i (img # imgs) =
     (case transcode env img of
        None \<Rightarrow> entries_from env folder pg (Suc i) imgs
      | Some b \<Rightarrow>
          (entry_name folder pg i (ext_of (Some (blob_type b))), b) #
          entries_from env folder pg (Suc i) imgs)"

text \<open>A live slot holds a hit.\<close>

definition is_live :: "slot \<Rightarrow> bool" where
  "is_live img = (case img of Item it \<Rightarrow> True | Placeholder \<Rightarrow> False)"

subsection \<open>White space, run by run\<close>

text \<open>
  Every run of white space becomes one underscore: the first white-space character of a
  run is replaced, the ones that follow it are dropped. The flag tells whether the
  character before was white space.
\<close>

fun collapse :: "bool \<Rightarrow> js_string \<Rightarrow> js_string" where
  "collapse prev [] = []"
| "collapse prev (c # cs) =
     (if is_space c then (if prev then collapse True cs else (code_of CHR ''_'') # collapse True cs)
      else c # collapse False cs)"

subsection \<open>Example browsers and grids\<close>

text \<open>
  Two browsers in which an undefined source does not load: one loads every defined
  source, the other every defined source but that of \<open>item_b\<close>. Both encode every
  canvas.
\<close>

definition jpeg_blob :: blob where
  "jpeg_blob = \<lparr>blob_type = (lit ''image/jpeg''), blob_content = []\<rparr>"

definition browser_defined :: browser where
  "browser_defined =
     \<lparr>loadImage = (\<lambda>u. case u of
                       None \<Rightarrow> None
                     | Some url \<Rightarrow> Some \<lparr>img_src = u, naturalWidth = 800, naturalHeight = 600\<rparr>),
      canvasToBlob = (\<lambda>c. Some jpeg_blob)\<rparr>"

definition browser_strict :: browser where
  "browser_strict =
     \<lparr>loadImage = (\<lambda>u. case u of
                       None \<Rightarrow> None
                     | Some url \<Rightarrow>
                         if url = download_url item_b then None
                         else Some \<lparr>img_src = u, naturalWidth = 800, naturalHeight = 600\<rparr>),
      canvasToBlob = (\<lambda>c. Some jpeg_blob)\<rparr>"

text \<open>The second image has been double-clicked and its timer has elapsed.\<close>

definition one_settled :: system where
  "one_settled = run [DblClick 1, TimerElapsed 1] cat_system"

text \<open>
  A grid whose query has a run of two spaces, three Cyrillic letters, and a run made of
  the ideographic space U+3000 and the em space U+2003; and the export it starts.
\<close>

definition spaced_query :: js_string where
  "spaced_query = lit ''black  '' @ [0x43A, 0x43E, 0x442, 0x3000, 0x2003] @ lit ''cat''"




text \<open>
  The export of the full page 1 is started; the forward button is used and page 2 comes
  back with two hits before the first batch of the export completes.
\<close>

definition full_page_export :: export_task where
  "full_page_export =
     \<lparr>x_folder = lit ''images_cat_page1'', x_zip = [], x_index = 0,
      x_batch = map Item (map numbered_item [0..<6])\<rparr>"

definition page2_short :: system where
  "page2_short =
     run [SetProps (lit ''cat'') 2, FetchDone (PageFetch req_page2) (answer_with [item_x, item_y] 2)]
       full_page"

definition crossed_download :: download where
  "crossed_download =
     \<lparr>file_name = lit ''images_cat_page1.zip'',
      archive = [(lit ''images_cat_page1/image_2_1.jpeg'', jpeg_blob),
                 (lit ''images_cat_page1/image_2_2.jpeg'', jpeg_blob),
                 (lit ''images_cat_page1/image_2_3.jpeg'', jpeg_blob),
                 (lit ''images_cat_page1/image_2_4.jpeg'', jpeg_blob),
                 (lit ''images_cat_page1/image_2_5.jpeg'', jpeg_blob),
                 (lit ''images_cat_page1/image_2_6.jpeg'', jpeg_blob)]\<rparr>"

subsection \<open>Archives under construction\<close>

text \<open>
  Every name in the archive of a suspended export carries an index below the loop
  variable.
\<close>

definition tidy :: "export_task \<Rightarrow> bool" where
  "tidy t =
     (\<forall>k \<in> fst ` set (x_zip t). \<exists>p j e. j < x_index t \<and> k = entry_name (x_folder t) p j e)"

section \<open>Properties\<close>

subsection \<open>Equations for running the model\<close>

lemmas example_defs = cat_system_def cat_grid_def answer_with_def

lemmas removal_defs = removeImageAt_start_def removeImageAt_settle_def removeImageAt_resolve_def
  first_result_def res_ok_def splice_replace_def splice_remove_def

lemmas fetch_defs = watch_callback_def fetchImages_start_def fetchImages_resolve_def
  fetchImages_outcome_def res_ok_def perPage_def

text \<open>The example grids are states the component reaches from its mounting.\<close>

lemma cat_system_reachable:
  "grid_of (step (FetchDone (PageFetch req_page1) (answer_with [item_a, item_b, item_c] 3))
      (mount (lit ''cat'') 1)) = cat_grid
   \<and> pending (step (FetchDone (PageFetch req_page1) (answer_with [item_a, item_b, item_c] 3))
      (mount (lit ''cat'') 1)) = []"
  by (simp add: example_defs mount_def setup_grid_def fetch_defs req_page1_def)

lemma length_fifty_items: "length fifty_items = 50"
  by (simp add: fifty_items_def)

lemma full_page_grid:
  "grid_of full_page =
     \<lparr>searchQuery = (lit ''cat''), page = 1, images = map Item fifty_items, loading = False,
      error = None, total = 1000, nextFetchPage = 2, removingIndexes = {}\<rparr>"
  "pending full_page = []"
  by (simp_all add: full_page_def mount_def setup_grid_def fetch_defs req_page1_def answer_with_def)

subsection \<open>Fetching with an empty query\<close>

text \<open>
  C8. For every state, a fetch triggered with an empty query empties the collection and
  sends nothing: \<^verbatim>\<open>fetchImages\<close> returns before its \<^verbatim>\<open>fetch\<close>, and the callback of
  the watcher leaves the list of sent requests and the suspended calls as they were. So
  does an event that sets the query to the empty string; it empties the collection
  whenever it makes the watcher run, and mounting with an empty query sends nothing.
\<close>

theorem empty_query_clears_without_fetch:
  "fetchImages_start (s\<lparr>searchQuery := []\<rparr>) = (s\<lparr>searchQuery := [], images := []\<rparr>, None)
   \<and> watch_callback (sys\<lparr>grid_of := (grid_of sys)\<lparr>searchQuery := []\<rparr>\<rparr>) =
       sys\<lparr>grid_of := (grid_of sys)\<lparr>searchQuery := [], images := []\<rparr>\<rparr>
   \<and> images (grid_of (step (SetProps [] p) sys)) =
       (if searchQuery (grid_of sys) = [] \<and> page (grid_of sys) = p then images (grid_of sys)
        else [])
   \<and> sent (step (SetProps [] p) sys) = sent sys
   \<and> pending (step (SetProps [] p) sys) = pending sys
   \<and> images (grid_of (mount [] p)) = []
   \<and> sent (mount [] p) = []
   \<and> pending (mount [] p) = []"
  by (simp add: watch_callback_def fetchImages_start_def mount_def setup_grid_def)

subsection \<open>Page navigation\<close>

lemma fetchImages_resolve_accepted:
  "fetchImages_outcome r = Inr d \<Longrightarrow>
   fetchImages_resolve r s =
     s\<lparr>images := (case data_results d of None \<Rightarrow> [] | Some rs \<Rightarrow> map Item rs),
       total := (case data_total d of None \<Rightarrow> 0 | Some t \<Rightarrow> t),
       nextFetchPage := page s + 1,
       loading := False\<rparr>"
  by (simp add: fetchImages_resolve_def)

lemma fetchImages_outcome_answer_with [simp]:
  "fetchImages_outcome (answer_with rs t) =
     Inr \<lparr>data_error = None, data_results = Some rs, data_total = Some t\<rparr>"
  by (simp add: fetchImages_outcome_def answer_with_def res_ok_def)

text \<open>
  C7, as stated, fails in its last part. Page 1 has returned fifty hits and the forward
  button is enabled. The first image is removed and the fetch for its replacement fails:
  the slot is taken out, the collection has 49 elements, and the forward button is
  disabled, although the page on display returned as many hits as were asked for.
\<close>

theorem next_disabled_after_failed_refill:
  "page (grid_of full_page) = 1
   \<and> images (grid_of full_page) = map Item fifty_items
   \<and> length fifty_items = 50
   \<and> \<not> next_disabled (grid_of full_page)
   \<and> page (grid_of full_page_less_one) = 1
   \<and> images (grid_of full_page_less_one) = map Item (tl fifty_items)
   \<and> next_disabled (grid_of full_page_less_one)"
proof -
  have "grid_of full_page_less_one =
      (grid_of full_page)\<lparr>images := map Item (tl fifty_items), total := 999\<rparr>"
    unfolding full_page_less_one_def run_def
    by (simp add: full_page_grid length_fifty_items removal_defs answer_500_def req_overflow_def
          Let_def drop_Suc map_tl)
  then show ?thesis
    by (simp add: full_page_grid length_fifty_items next_disabled_def perPage_def)
qed

text \<open>
  C7, amended. On page 10 or beyond \<^verbatim>\<open>nextPage\<close> emits nothing, on page 1 or below
  \<^verbatim>\<open>prevPage\<close> emits nothing, and from a page between 1 and 10 whatever either emits is
  between 1 and 10 again. The forward button is disabled exactly when the collection has
  fewer than 50 elements; in the state an accepted answer leaves, that is exactly when
  the answer had fewer than 50 hits.
\<close>

theorem navigation_bounds:
  "(10 \<le> page s \<longrightarrow> nextPage s = None)
   \<and> (page s \<le> 1 \<longrightarrow> prevPage s = None)
   \<and> (1 \<le> page s \<and> page s \<le> 10 \<longrightarrow>
        (\<forall>p. nextPage s = Some p \<or> prevPage s = Some p \<longrightarrow> 1 \<le> p \<and> p \<le> 10))
   \<and> (next_disabled s \<longleftrightarrow> length (images s) < 50)
   \<and> (fetchImages_outcome r = Inr d \<longrightarrow>
        (next_disabled (fetchImages_resolve r s) \<longleftrightarrow>
           length (case data_results d of None \<Rightarrow> [] | Some rs \<Rightarrow> rs) < 50))"
  by (auto simp: nextPage_def prevPage_def next_disabled_def perPage_def
        fetchImages_resolve_accepted split: option.splits)

theorem navigation_bounds_witness:
  "nextPage (setup_grid (lit ''cat'') 10) = None
   \<and> prevPage (setup_grid (lit ''cat'') 1) = None
   \<and> nextPage (setup_grid (lit ''cat'') 9) = Some 10
   \<and> prevPage (setup_grid (lit ''cat'') 2) = Some 1
   \<and> next_disabled (fetchImages_resolve (answer_with [item_x] 1) (setup_grid (lit ''cat'') 1))"
  using navigation_bounds [of "setup_grid (lit ''cat'') 10"]
    navigation_bounds [of "setup_grid (lit ''cat'') 1" "answer_with [item_x] 1"
      "\<lparr>data_error = None, data_results = Some [item_x], data_total = Some 1\<rparr>"]
    navigation_bounds [of "setup_grid (lit ''cat'') 9"]
    navigation_bounds [of "setup_grid (lit ''cat'') 2"]
  by (simp add: setup_grid_def nextPage_def prevPage_def)

subsection \<open>The square crop of the export\<close>

lemma floor_half_diff:
  "\<lfloor>(real w - real (min w h)) / 2\<rfloor> = (int w - min (int w) (int h)) div 2"
proof -
  have "real w - real (min w h) = real_of_int (int w - min (int w) (int h))"
    by (simp add: min_def)
  then have "\<lfloor>(real w - real (min w h)) / 2\<rfloor> =
      \<lfloor>real_of_int (int w - min (int w) (int h)) / real_of_int 2\<rfloor>"
    by simp
  also have "\<dots> = (int w - min (int w) (int h)) div 2"
    by (rule floor_divide_of_int_eq)
  finally show ?thesis .
qed

text \<open>
  C5. For an image of natural size \<open>w \<times> h\<close> the rectangle that \<^verbatim>\<open>drawImage\<close> reads is
  the square of side \<open>min w h\<close> at \<open>sx = \<lfloor>(w - side) / 2\<rfloor>\<close> and \<open>sy = \<lfloor>(h - side) / 2\<rfloor>\<close>,
  the quotients taken in the reals; for 800 by 600 it is the square of side 600 at
  (100, 0), drawn onto the 50 by 50 canvas.
\<close>

theorem center_crop:
  "d_sWidth (drawn (draw_cropped img)) = min (int (naturalWidth img)) (int (naturalHeight img))
   \<and> d_sHeight (drawn (draw_cropped img)) = min (int (naturalWidth img)) (int (naturalHeight img))
   \<and> d_sx (drawn (draw_cropped img)) =
       \<lfloor>(real (naturalWidth img) - real (min (naturalWidth img) (naturalHeight img))) / 2\<rfloor>
   \<and> d_sy (drawn (draw_cropped img)) =
       \<lfloor>(real (naturalHeight img) - real (min (naturalWidth img) (naturalHeight img))) / 2\<rfloor>
   \<and> drawn (draw_cropped \<lparr>img_src = src, naturalWidth = 800, naturalHeight = 600\<rparr>) =
       \<lparr>d_image = \<lparr>img_src = src, naturalWidth = 800, naturalHeight = 600\<rparr>,
        d_sx = 100, d_sy = 0, d_sWidth = 600, d_sHeight = 600,
        d_dx = 0, d_dy = 0, d_dWidth = 50, d_dHeight = 50\<rparr>"
proof (intro conjI)
  show "drawn (draw_cropped \<lparr>img_src = src, naturalWidth = 800, naturalHeight = 600\<rparr>) =
       \<lparr>d_image = \<lparr>img_src = src, naturalWidth = 800, naturalHeight = 600\<rparr>,
        d_sx = 100, d_sy = 0, d_sWidth = 600, d_sHeight = 600,
        d_dx = 0, d_dy = 0, d_dWidth = 50, d_dHeight = 50\<rparr>"
    by (simp add: draw_cropped_def size_px_def)
  show "d_sx (drawn (draw_cropped img)) =
       \<lfloor>(real (naturalWidth img) - real (min (naturalWidth img) (naturalHeight img))) / 2\<rfloor>"
    unfolding floor_half_diff by (simp add: draw_cropped_def Let_def)
  have "min (naturalWidth img) (naturalHeight img) = min (naturalHeight img) (naturalWidth img)"
    by (rule min.commute)
  then show "d_sy (drawn (draw_cropped img)) =
       \<lfloor>(real (naturalHeight img) - real (min (naturalWidth img) (naturalHeight img))) / 2\<rfloor>"
    unfolding floor_half_diff by (simp add: draw_cropped_def Let_def floor_half_diff min.commute)
qed (simp_all add: draw_cropped_def Let_def)

subsection \<open>One removal\<close>

lemma splice_replace_in_range:
  "i < length xs \<Longrightarrow> splice_replace i v xs = xs[i := v]"
  by (simp add: splice_replace_def upd_conv_take_nth_drop)

lemma splice_replace_twice:
  "i < length xs \<Longrightarrow> splice_replace i w (splice_replace i v xs) = xs[i := w]"
  by (simp add: splice_replace_in_range)

lemma splice_remove_replaced:
  "i < length xs \<Longrightarrow> splice_remove i (splice_replace i v xs) = take i xs @ drop (Suc i) xs"
  by (simp add: splice_replace_in_range splice_remove_def)

lemma first_result_cases:
  "first_result (Rejected m) = None"
  "\<not> res_ok st \<Longrightarrow> first_result (Responded st body) = None"
  "first_result (Responded st (Inl m)) = None"
  "res_ok st \<Longrightarrow> first_result (Responded st (Inr d)) =
     (case data_results d of None \<Rightarrow> None | Some [] \<Rightarrow> None | Some (x # xs) \<Rightarrow> Some x)"
  by (simp_all add: first_result_def)







subsection \<open>Answers that arrive out of order\<close>

lemma run_snoc: "run (es @ [e]) sys = step e (run es sys)"
  by (simp add: run_def)

lemma shown_by_answer:
  "shown_images (answer_with rs t) = map Item rs"
  "shown_total (answer_with rs t) old = t"
  "shown_images (Rejected m) = []"
  "shown_total (Rejected m) old = old"
  "\<not> res_ok st \<Longrightarrow> shown_images (Responded st body) = []"
  "\<not> res_ok st \<Longrightarrow> shown_total (Responded st body) old = old"
  by (simp_all add: shown_images_def shown_total_def fetchImages_outcome_def answer_with_def
        res_ok_def)

text \<open>
  C1, as stated, fails. With page 2 of the query on display and the props on page 2, the
  fetch that was sent for page 1 is still suspended; when its answer comes, the collection
  and the total become those of page 1 although the props still say page 2.
\<close>

theorem stale_fetch_overwrites:
  "PageFetch req_page1 \<in> set (pending page2_shown)
   \<and> searchQuery (grid_of page2_shown) = (lit ''cat'')
   \<and> page (grid_of page2_shown) = 2
   \<and> req_page req_page1 \<noteq> page (grid_of page2_shown)
   \<and> images (grid_of page2_shown) = [Item item_x, Item item_y]
   \<and> total (grid_of page2_shown) = 2
   \<and> page (grid_of page1_late) = 2
   \<and> images (grid_of page1_late) = [Item item_a, Item item_b, Item item_c]
   \<and> total (grid_of page1_late) = 3
   \<and> images (grid_of page1_late) \<noteq> images (grid_of page2_shown)"
  by (simp add: page1_late_def page2_shown_def req_page1_def req_page2_def mount_def
        setup_grid_def run_def fetch_defs answer_with_def item_a_def item_x_def)

text \<open>
  C1, amended. The continuation of \<^verbatim>\<open>fetchImages\<close> compares nothing: whenever a
  suspended page fetch gets its answer, after any run of events and whatever its request
  and the props are by then, the collection and the total become what that answer
  displays. So the grid shows the answer that came last; it shows the latest requested
  parameters when the fetch sent for them is the last to be answered.
\<close>

theorem last_answer_shown:
  assumes "PageFetch req \<in> set (pending (run es sys))"
  shows "images (grid_of (run (es @ [FetchDone (PageFetch req) r]) sys)) = shown_images r
    \<and> total (grid_of (run (es @ [FetchDone (PageFetch req) r]) sys)) =
        shown_total r (total (grid_of (run es sys)))"
  using assms
  by (simp add: run_snoc fetchImages_resolve_def shown_images_def shown_total_def split: sum.split)

theorem last_answer_shown_witness:
  "PageFetch req_page1 \<in>
     set (pending (run [SetProps (lit ''cat'') 2,
                        FetchDone (PageFetch req_page2) (answer_with [item_x, item_y] 2)]
                     (mount (lit ''cat'') 1)))
   \<and> images (grid_of (run ([SetProps (lit ''cat'') 2,
                             FetchDone (PageFetch req_page2) (answer_with [item_x, item_y] 2)] @
                            [FetchDone (PageFetch req_page1) (answer_with [item_a, item_b, item_c] 3)])
                         (mount (lit ''cat'') 1))) = [Item item_a, Item item_b, Item item_c]
   \<and> total (grid_of (run ([SetProps (lit ''cat'') 2,
                             FetchDone (PageFetch req_page2) (answer_with [item_x, item_y] 2)] @
                            [FetchDone (PageFetch req_page1) (answer_with [item_a, item_b, item_c] 3)])
                         (mount (lit ''cat'') 1))) = 3"
  using last_answer_shown [of req_page1
      "[SetProps (lit ''cat'') 2, FetchDone (PageFetch req_page2) (answer_with [item_x, item_y] 2)]"
      "mount (lit ''cat'') 1" "answer_with [item_a, item_b, item_c] 3"]
  by (simp add: req_page1_def req_page2_def mount_def setup_grid_def
        run_def fetch_defs answer_with_def shown_images_def shown_total_def)

subsection \<open>The cursor of the replacement fetches\<close>

text \<open>
  C6, as stated, fails. The full page 1 is on display with the cursor on 2, and the
  forward button leads to page 2. The page is set to 2: the cursor is still 2. The fetch
  for page 2 fails: the cursor is still 2, which is not the page plus one.
\<close>

theorem cursor_not_reset_on_failed_fetch:
  "page (grid_of full_page) = 1
   \<and> nextFetchPage (grid_of full_page) = 2
   \<and> nextPage (grid_of full_page) = Some 2
   \<and> page (grid_of (step (SetProps (lit ''cat'') 2) full_page)) = 2
   \<and> nextFetchPage (grid_of (step (SetProps (lit ''cat'') 2) full_page)) = 2
   \<and> pending (step (SetProps (lit ''cat'') 2) full_page) = [PageFetch req_page2]
   \<and> page (grid_of page2_failed) = 2
   \<and> pending page2_failed = []
   \<and> nextFetchPage (grid_of page2_failed) = 2
   \<and> nextFetchPage (grid_of page2_failed) \<noteq> page (grid_of page2_failed) + 1"
  unfolding page2_failed_def run_def
  by (simp add: full_page_grid nextPage_def answer_500_def fetch_defs req_page2_def)

lemma step_cursor_cases:
  assumes "nextFetchPage (grid_of (step e sys)) \<noteq> nextFetchPage (grid_of sys)"
  shows "(\<exists>req r d. e = FetchDone (PageFetch req) r \<and> PageFetch req \<in> set (pending sys)
       \<and> fetchImages_outcome r = Inr d)
   \<or> (\<exists>i fp req r it. e = FetchDone (ReplacementFetch i fp req) r
       \<and> ReplacementFetch i fp req \<in> set (pending sys) \<and> first_result r = Some it)"
proof (cases e)
  case (SetProps q p)
  with assms show ?thesis
    by (simp add: watch_callback_def fetchImages_start_def split: if_splits)
next
  case (DblClick i)
  with assms show ?thesis by (simp add: removeImageAt_start_def split: if_splits)
next
  case (TimerElapsed i)
  with assms show ?thesis by (simp add: removeImageAt_settle_def Let_def split: if_splits)
next
  case (FetchDone t r)
  with assms show ?thesis
    by (cases t)
       (auto simp: fetchImages_resolve_def removeImageAt_resolve_def Let_def
          split: if_splits sum.splits option.splits)
qed

text \<open>
  C6, amended. An event changes the cursor only if it is the accepted answer to a
  suspended page fetch or an answer with a first hit to a suspended replacement fetch;
  the export does not change it. The answer to a page fetch sets it to the page of the
  props plus one when the body is accepted and leaves it when the fetch fails. The answer
  to a replacement fetch whose captured page is still the cursor moves it on by exactly
  one when it has a first hit and leaves it otherwise.
\<close>

theorem cursor_writes:
  "(nextFetchPage (grid_of (step e sys)) \<noteq> nextFetchPage (grid_of sys) \<longrightarrow>
      (\<exists>req r d. e = FetchDone (PageFetch req) r \<and> PageFetch req \<in> set (pending sys)
          \<and> fetchImages_outcome r = Inr d)
      \<or> (\<exists>i fp req r it. e = FetchDone (ReplacementFetch i fp req) r
          \<and> ReplacementFetch i fp req \<in> set (pending sys) \<and> first_result r = Some it))
   \<and> nextFetchPage (fst (downloadZip env (grid_of sys))) = nextFetchPage (grid_of sys)
   \<and> (PageFetch req \<in> set (pending sys) \<longrightarrow>
        nextFetchPage (grid_of (step (FetchDone (PageFetch req) r) sys)) =
          (case fetchImages_outcome r of
             Inr d \<Rightarrow> page (grid_of sys) + 1
           | Inl m \<Rightarrow> nextFetchPage (grid_of sys)))
   \<and> (ReplacementFetch i (nextFetchPage (grid_of sys)) rq \<in> set (pending sys) \<longrightarrow>
        nextFetchPage
          (grid_of (step (FetchDone (ReplacementFetch i (nextFetchPage (grid_of sys)) rq) r) sys)) =
          (case first_result r of
             Some it \<Rightarrow> nextFetchPage (grid_of sys) + 1
           | None \<Rightarrow> nextFetchPage (grid_of sys)))"
proof (intro conjI impI)
  show "nextFetchPage (fst (downloadZip env (grid_of sys))) = nextFetchPage (grid_of sys)"
    by (simp add: downloadZip_def downloadZip_start_def)
next
  assume "PageFetch req \<in> set (pending sys)"
  then show "nextFetchPage (grid_of (step (FetchDone (PageFetch req) r) sys)) =
          (case fetchImages_outcome r of
             Inr d \<Rightarrow> page (grid_of sys) + 1
           | Inl m \<Rightarrow> nextFetchPage (grid_of sys))"
    by (simp add: fetchImages_resolve_def split: sum.split)
next
  assume "ReplacementFetch i (nextFetchPage (grid_of sys)) rq \<in> set (pending sys)"
  then show "nextFetchPage
          (grid_of (step (FetchDone (ReplacementFetch i (nextFetchPage (grid_of sys)) rq) r) sys)) =
          (case first_result r of
             Some it \<Rightarrow> nextFetchPage (grid_of sys) + 1
           | None \<Rightarrow> nextFetchPage (grid_of sys))"
    by (simp add: removeImageAt_resolve_def Let_def split: option.split)
next
  assume "nextFetchPage (grid_of (step e sys)) \<noteq> nextFetchPage (grid_of sys)"
  then show "(\<exists>req r d. e = FetchDone (PageFetch req) r \<and> PageFetch req \<in> set (pending sys)
          \<and> fetchImages_outcome r = Inr d)
      \<or> (\<exists>i fp req r it. e = FetchDone (ReplacementFetch i fp req) r
          \<and> ReplacementFetch i fp req \<in> set (pending sys) \<and> first_result r = Some it)"
    by (rule step_cursor_cases)
qed

theorem cursor_writes_witness:
  "PageFetch req_page2 \<in> set (pending (step (SetProps (lit ''cat'') 2) cat_system))
   \<and> nextFetchPage (grid_of (step (SetProps (lit ''cat'') 2) cat_system)) = 2
   \<and> nextFetchPage (grid_of (step (FetchDone (PageFetch req_page2) (answer_with [item_x, item_y] 2))
        (step (SetProps (lit ''cat'') 2) cat_system))) = 3
   \<and> ReplacementFetch 0 2 req_overflow \<in> set (pending (run [DblClick 0, TimerElapsed 0] cat_system))
   \<and> nextFetchPage (grid_of (run [DblClick 0, TimerElapsed 0] cat_system)) = 2
   \<and> nextFetchPage (grid_of (step (FetchDone (ReplacementFetch 0 2 req_overflow) (answer_with [item_x] 10))
        (run [DblClick 0, TimerElapsed 0] cat_system))) = 3"
  using cursor_writes [where e = "FetchDone (PageFetch req_page2) (answer_with [item_x, item_y] 2)"
      and sys = "step (SetProps (lit ''cat'') 2) cat_system" and req = req_page2
      and r = "answer_with [item_x, item_y] 2" and i = 0 and rq = req_overflow]
    cursor_writes [where e = "FetchDone (ReplacementFetch 0 2 req_overflow) (answer_with [item_x] 10)"
      and sys = "run [DblClick 0, TimerElapsed 0] cat_system" and req = req_page2
      and r = "answer_with [item_x] 10" and i = 0 and rq = req_overflow]
  by (simp add: run_def example_defs fetch_defs removal_defs req_page2_def req_overflow_def Let_def)

subsection \<open>Two removals at once\<close>

text \<open>
  C2 against the code. A double click on slot 0 of three live images and its timer, a
  double click on slot 1 and its timer, then the two answers. Both replacement fetches
  are sent with the same request,
  the cursor being read before either answer has moved it. When both answers are empty,
  the first takes out slot 0, the placeholder of the second removal moves to slot 0, and
  the second answer takes out slot 1, which by then holds the third image: one placeholder
  is left and no live image. When the first answer is empty and the second has a hit, the
  hit replaces the third image. When both have the hit of the one request, it is in the
  grid twice, and the cursor has moved on by one.
\<close>

theorem overlapping_removals:
  "images (grid_of cat_system) = [Item item_a, Item item_b, Item item_c]
   \<and> images (grid_of both_settled) = [Placeholder, Placeholder, Item item_c]
   \<and> pending both_settled = [ReplacementFetch 0 2 req_overflow, ReplacementFetch 1 2 req_overflow]
   \<and> sent both_settled = [req_overflow, req_overflow]
   \<and> images (grid_of (run [FetchDone (ReplacementFetch 0 2 req_overflow) answer_empty,
                             FetchDone (ReplacementFetch 1 2 req_overflow) answer_empty] both_settled)) =
       [Placeholder]
   \<and> images (grid_of (run [FetchDone (ReplacementFetch 0 2 req_overflow) answer_empty,
                             FetchDone (ReplacementFetch 1 2 req_overflow) (answer_with [item_x] 10)]
                         both_settled)) =
       [Placeholder, Item item_x]
   \<and> images (grid_of (run [FetchDone (ReplacementFetch 1 2 req_overflow) (answer_with [item_x] 10),
                             FetchDone (ReplacementFetch 0 2 req_overflow) (answer_with [item_x] 10)]
                         both_settled)) =
       [Item item_x, Item item_x, Item item_c]
   \<and> nextFetchPage (grid_of (run [FetchDone (ReplacementFetch 1 2 req_overflow) (answer_with [item_x] 10),
                             FetchDone (ReplacementFetch 0 2 req_overflow) (answer_with [item_x] 10)]
                         both_settled)) = 3"
  by (simp add: both_settled_def run_def example_defs answer_empty_def removal_defs
        req_overflow_def Let_def)

subsection \<open>Numerals and entry names\<close>

text \<open>
  A decimal numeral is read back to its number, it has no dot and no underscore in it;
  so the name of an entry determines its index.
\<close>

lemma unat_digit_char: "d < 10 \<Longrightarrow> unat (digit_char d) = 48 + d"
proof -
  assume "d < 10"
  then have "d \<in> {0, 1, 2, 3, 4, 5, 6, 7, 8, 9}" by auto
  then show ?thesis by (auto simp: digit_char_def)
qed

lemma digit_value_digit_char: "d < 10 \<Longrightarrow> digit_value (digit_char d) = d"
  by (simp add: digit_value_def unat_digit_char)

lemma read_nat_snoc: "read_nat (ds @ [c]) = 10 * read_nat ds + digit_value c"
  by (simp add: read_nat_def)

lemma read_show_nat: "read_nat (show_nat n) = n"
proof (induction n rule: show_nat.induct)
  case (1 n)
  show ?case
  proof (cases "n < 10")
    case True
    then show ?thesis
      by (simp add: show_nat.simps [of n] read_nat_def digit_value_digit_char)
  next
    case False
    with 1 have "read_nat (show_nat (n div 10)) = n div 10" by simp
    with False show ?thesis
      by (simp add: show_nat.simps [of n] read_nat_snoc digit_value_digit_char)
  qed
qed

lemma show_nat_inject: "show_nat a = show_nat b \<Longrightarrow> a = b"
  by (metis read_show_nat)

lemma show_nat_digits: "c \<in> set (show_nat n) \<Longrightarrow> 48 \<le> unat c \<and> unat c \<le> 57"
proof (induction n rule: show_nat.induct)
  case (1 n)
  show ?case
  proof (cases "n < 10")
    case True
    with "1.prems" have "c = digit_char n"
      by (simp add: show_nat.simps [of n])
    with True show ?thesis
      by (simp add: unat_digit_char)
  next
    case False
    with "1.prems" consider "c \<in> set (show_nat (n div 10))" | "c = digit_char (n mod 10)"
      by (auto simp: show_nat.simps [of n])
    then show ?thesis
    proof cases
      case 1
      with False "1.IH" show ?thesis by simp
    next
      case 2
      then show ?thesis by (simp add: unat_digit_char)
    qed
  qed
qed

lemma show_nat_no_dot: "code_of CHR ''.'' \<notin> set (show_nat n)"
  using show_nat_digits [of "code_of CHR ''.''" n] by auto

lemma show_int_no_underscore: "code_of CHR ''_'' \<notin> set (show_int p)"
  using show_nat_digits [of "code_of CHR ''_''"] by (auto simp: show_int_def)

lemma before_dot:
  "takeWhile (\<lambda>c. c \<noteq> code_of CHR ''.'') (show_nat n @ code_of CHR ''.'' # e) = show_nat n"
proof -
  have "\<forall>c \<in> set (show_nat n). c \<noteq> code_of CHR ''.''"
    using show_nat_no_dot [of n] by auto
  then show ?thesis
    by (simp add: takeWhile_tail)
qed

lemma before_underscore:
  "takeWhile (\<lambda>c. c \<noteq> code_of CHR ''_'') (show_int p @ code_of CHR ''_'' # e) = show_int p"
proof -
  have "\<forall>c \<in> set (show_int p). c \<noteq> code_of CHR ''_''"
    using show_int_no_underscore [of p] by auto
  then show ?thesis
    by (simp add: takeWhile_tail)
qed

lemma entry_name_inject:
  assumes "entry_name folder p i e = entry_name folder p' j e'"
  shows "i = j"
proof -
  from assms have whole: "show_int p @ code_of CHR ''_'' # (show_nat (i + 1) @ code_of CHR ''.'' # e) =
      show_int p' @ code_of CHR ''_'' # (show_nat (j + 1) @ code_of CHR ''.'' # e')"
    by (simp add: entry_name_def)
  then have "takeWhile (\<lambda>c. c \<noteq> code_of CHR ''_'')
        (show_int p @ code_of CHR ''_'' # (show_nat (i + 1) @ code_of CHR ''.'' # e)) =
      takeWhile (\<lambda>c. c \<noteq> code_of CHR ''_'')
        (show_int p' @ code_of CHR ''_'' # (show_nat (j + 1) @ code_of CHR ''.'' # e'))"
    by (rule arg_cong)
  then have "show_int p = show_int p'"
    by (simp only: before_underscore)
  with whole have rest: "show_nat (i + 1) @ code_of CHR ''.'' # e =
      show_nat (j + 1) @ code_of CHR ''.'' # e'"
    by simp
  then have "takeWhile (\<lambda>c. c \<noteq> code_of CHR ''.'') (show_nat (i + 1) @ code_of CHR ''.'' # e) =
      takeWhile (\<lambda>c. c \<noteq> code_of CHR ''.'') (show_nat (j + 1) @ code_of CHR ''.'' # e')"
    by (rule arg_cong)
  then have "show_nat (i + 1) = show_nat (j + 1)"
    by (simp only: before_dot)
  then show ?thesis
    by (auto dest: show_nat_inject)
qed

subsection \<open>The archive of an export\<close>

lemma process_image_transcode:
  "process_image env i img =
     \<lparr>r_index = i, r_blob = transcode env img, r_mime = map_option blob_type (transcode env img)\<rparr>"
  by (simp add: process_image_def transcode_def split: option.split)

lemma update_fresh: "k \<notin> fst ` set al \<Longrightarrow> AList.update k v al = al @ [(k, v)]"
  by (induction al) auto


lemma entries_from_append:
  "entries_from env folder pg i (xs @ ys) =
   entries_from env folder pg i xs @ entries_from env folder pg (i + length xs) ys"
  by (induction xs arbitrary: i) (simp_all split: option.split)

lemma length_entries_from:
  "length (entries_from env folder pg i imgs) = length (filter (\<lambda>img. transcode env img \<noteq> None) imgs)"
  by (induction imgs arbitrary: i) (auto split: option.splits)

lemma keys_entries_from:
  assumes "(k, b) \<in> set (entries_from env folder pg i imgs)"
  shows "\<exists>j. i \<le> j \<and> j < i + length imgs \<and> transcode env (imgs ! (j - i)) = Some b
    \<and> k = entry_name folder pg j (ext_of (Some (blob_type b)))"
  using assms
proof (induction imgs arbitrary: i)
  case Nil
  then show ?case by simp
next
  case (Cons img imgs)
  consider (here) "transcode env img = Some b"
      "k = entry_name folder pg i (ext_of (Some (blob_type b)))"
    | (later) "(k, b) \<in> set (entries_from env folder pg (Suc i) imgs)"
    using Cons.prems by (auto split: option.splits)
  then show ?case
  proof cases
    case here
    then have "i \<le> i \<and> i < i + length (img # imgs) \<and> transcode env ((img # imgs) ! (i - i)) = Some b
        \<and> k = entry_name folder pg i (ext_of (Some (blob_type b)))"
      by simp
    then show ?thesis by blast
  next
    case later
    from Cons.IH [OF later] obtain j where j: "Suc i \<le> j" "j < Suc i + length imgs"
      "transcode env (imgs ! (j - Suc i)) = Some b"
      "k = entry_name folder pg j (ext_of (Some (blob_type b)))"
      by blast
    from j(1) have "j - i = Suc (j - Suc i)"
      by arith
    then have "(img # imgs) ! (j - i) = imgs ! (j - Suc i)"
      by simp
    with j have "i \<le> j \<and> j < i + length (img # imgs) \<and> transcode env ((img # imgs) ! (j - i)) = Some b
        \<and> k = entry_name folder pg j (ext_of (Some (blob_type b)))"
      by simp
    then show ?thesis by blast
  qed
qed

lemma shifted_enumerate:
  "map (\<lambda>(idx, img). f (i + idx) img) (enumerate n xs) =
   map (\<lambda>(idx, img). f idx img) (enumerate (i + n) xs)"
  by (induction xs arbitrary: n) simp_all

lemma foldl_add_results:
  assumes "\<And>k. k \<in> fst ` set z \<Longrightarrow> \<exists>p j e. j < i \<and> k = entry_name folder p j e"
  shows "foldl (add_result folder pg) z
      (map (\<lambda>(idx, img). process_image env idx img) (enumerate i imgs)) =
    z @ entries_from env folder pg i imgs"
  using assms
proof (induction imgs arbitrary: i z)
  case Nil
  then show ?case by simp
next
  case (Cons img imgs)
  show ?case
  proof (cases "transcode env img")
    case None
    have "\<exists>p j e. j < Suc i \<and> k = entry_name folder p j e" if "k \<in> fst ` set z" for k
      using Cons.prems [OF that] by (auto intro: less_SucI)
    from Cons.IH [of z "Suc i", OF this] None show ?thesis
      by (simp add: add_result_def process_image_transcode)
  next
    case (Some b)
    define k where "k = entry_name folder pg i (ext_of (Some (blob_type b)))"
    have fresh: "k \<notin> fst ` set z"
    proof
      assume "k \<in> fst ` set z"
      from Cons.prems [OF this] obtain p j e where "j < i" and "k = entry_name folder p j e"
        by blast
      then show False
        by (auto simp: k_def dest: entry_name_inject)
    qed
    have "\<exists>p j e. j < Suc i \<and> k' = entry_name folder p j e" if "k' \<in> fst ` set (z @ [(k, b)])" for k'
      using that Cons.prems [of k'] by (auto simp: k_def intro: less_SucI)
    from Cons.IH [of "z @ [(k, b)]" "Suc i", OF this] Some fresh show ?thesis
      by (simp add: add_result_def process_image_transcode update_fresh k_def)
  qed
qed

lemma batch_entries:
  assumes "\<And>k. k \<in> fst ` set z \<Longrightarrow> \<exists>p j e. j < i \<and> k = entry_name folder p j e"
  shows "foldl (add_result folder pg) z
      (map (\<lambda>(idx, img). process_image env (i + idx) img) (enumerate 0 imgs)) =
    z @ entries_from env folder pg i imgs"
  using foldl_add_results [OF assms, where pg = pg and env = env and imgs = imgs]
  by (simp add: shifted_enumerate [where f = "process_image env" and i = i and n = 0])

lemma keys_after_batch:
  assumes "\<And>k. k \<in> fst ` set z \<Longrightarrow> \<exists>p j e. j < i \<and> k = entry_name folder p j e"
    and "k \<in> fst ` set (z @ entries_from env folder pg i imgs)"
  shows "\<exists>p j e. j < i + length imgs \<and> k = entry_name folder p j e"
proof -
  from assms(2) consider "k \<in> fst ` set z"
    | b where "(k, b) \<in> set (entries_from env folder pg i imgs)"
    by auto
  then show ?thesis
  proof cases
    case 1
    from assms(1) [OF this] show ?thesis
      by (auto intro: trans_less_add1)
  next
    case 2
    from keys_entries_from [OF this] show ?thesis by blast
  qed
qed

lemma tidy_start: "downloadZip_start s = (s', Some t) \<Longrightarrow> tidy t"
  by (auto simp: downloadZip_start_def tidy_def split: if_splits)

lemma resume_tidy:
  assumes "tidy t" and "length (x_batch t) \<le> concurrency"
  shows "downloadZip_resume env t s =
     (if x_index t + concurrency < length (images s)
      then Inl \<lparr>x_folder = x_folder t,
                x_zip = x_zip t @ entries_from env (x_folder t) (page s) (x_index t) (x_batch t),
                x_index = x_index t + concurrency,
                x_batch = take concurrency (drop (x_index t + concurrency) (images s))\<rparr>
      else Inr \<lparr>file_name = x_folder t @ lit ''.zip'',
                archive = x_zip t @ entries_from env (x_folder t) (page s) (x_index t) (x_batch t)\<rparr>)"
    and "tidy \<lparr>x_folder = x_folder t,
                x_zip = x_zip t @ entries_from env (x_folder t) (page s) (x_index t) (x_batch t),
                x_index = x_index t + concurrency,
                x_batch = take concurrency (drop (x_index t + concurrency) (images s))\<rparr>"
proof -
  have keys: "\<exists>p j e. j < x_index t \<and> k = entry_name (x_folder t) p j e"
    if "k \<in> fst ` set (x_zip t)" for k
    using assms(1) that by (auto simp: tidy_def)
  show "downloadZip_resume env t s =
     (if x_index t + concurrency < length (images s)
      then Inl \<lparr>x_folder = x_folder t,
                x_zip = x_zip t @ entries_from env (x_folder t) (page s) (x_index t) (x_batch t),
                x_index = x_index t + concurrency,
                x_batch = take concurrency (drop (x_index t + concurrency) (images s))\<rparr>
      else Inr \<lparr>file_name = x_folder t @ lit ''.zip'',
                archive = x_zip t @ entries_from env (x_folder t) (page s) (x_index t) (x_batch t)\<rparr>)"
    by (simp add: downloadZip_resume_def Let_def batch_entries [OF keys])
  have "\<exists>p j e. j < x_index t + concurrency \<and> k = entry_name (x_folder t) p j e"
    if "k \<in> fst ` set (x_zip t @ entries_from env (x_folder t) (page s) (x_index t) (x_batch t))"
    for k
  proof -
    from keys_after_batch [OF keys that] obtain p j e
      where "j < x_index t + length (x_batch t)" and "k = entry_name (x_folder t) p j e"
      by blast
    with assms(2) have "j < x_index t + concurrency \<and> k = entry_name (x_folder t) p j e"
      by simp
    then show ?thesis by blast
  qed
  then show "tidy \<lparr>x_folder = x_folder t,
                x_zip = x_zip t @ entries_from env (x_folder t) (page s) (x_index t) (x_batch t),
                x_index = x_index t + concurrency,
                x_batch = take concurrency (drop (x_index t + concurrency) (images s))\<rparr>"
    by (simp add: tidy_def)
qed

lemma concurrency_pos: "0 < concurrency"
  by (simp add: concurrency_def)

lemma unchanged_count:
  assumes "tidy t" and "x_batch t = take concurrency (drop (x_index t) imgs)"
    and "x_index t < length imgs"
    and "\<forall>g \<in> set gs. images g = imgs"
    and "length imgs \<le> x_index t + concurrency * length gs"
  shows "\<exists>d. export_through env t gs = Inr d \<and> file_name d = x_folder t @ lit ''.zip''
    \<and> length (archive d) =
        length (x_zip t) + length (filter (\<lambda>img. transcode env img \<noteq> None) (drop (x_index t) imgs))"
  using assms
proof (induction gs arbitrary: t)
  case Nil
  then show ?case by simp
next
  case (Cons g gs)
  let ?i = "x_index t"
  let ?z = "x_zip t @ entries_from env (x_folder t) (page g) ?i (x_batch t)"
  let ?t' = "\<lparr>x_folder = x_folder t, x_zip = ?z, x_index = ?i + concurrency,
      x_batch = take concurrency (drop (?i + concurrency) (images g))\<rparr>"
  have short: "length (x_batch t) \<le> concurrency"
    using Cons.prems(2) by simp
  have g: "images g = imgs"
    using Cons.prems(4) by simp
  have split: "drop ?i imgs = x_batch t @ drop (?i + concurrency) imgs"
    using Cons.prems(2) by (simp add: add.commute [of ?i] flip: drop_drop)
  have count: "length ?z + length (filter (\<lambda>img. transcode env img \<noteq> None) (drop (?i + concurrency) imgs)) =
      length (x_zip t) + length (filter (\<lambda>img. transcode env img \<noteq> None) (drop ?i imgs))"
  proof -
    have "filter (\<lambda>img. transcode env img \<noteq> None) (drop ?i imgs) =
        filter (\<lambda>img. transcode env img \<noteq> None) (x_batch t) @
        filter (\<lambda>img. transcode env img \<noteq> None) (drop (?i + concurrency) imgs)"
      using arg_cong [OF split, of "filter (\<lambda>img. transcode env img \<noteq> None)"] by simp
    then show ?thesis
      by (simp add: length_entries_from)
  qed
  show ?case
  proof (cases "?i + concurrency < length imgs")
    case True
    have step: "export_through env t (g # gs) = export_through env ?t' gs"
      using True by (simp add: resume_tidy(1) [OF Cons.prems(1) short] g)
    have "\<exists>d. export_through env ?t' gs = Inr d \<and> file_name d = x_folder ?t' @ lit ''.zip''
        \<and> length (archive d) = length (x_zip ?t') +
            length (filter (\<lambda>img. transcode env img \<noteq> None) (drop (x_index ?t') imgs))"
    proof (rule Cons.IH)
      show "tidy ?t'" by (rule resume_tidy(2) [OF Cons.prems(1) short])
      show "x_batch ?t' = take concurrency (drop (x_index ?t') imgs)" by (simp add: g)
      show "x_index ?t' < length imgs" using True by simp
      show "\<forall>g \<in> set gs. images g = imgs" using Cons.prems(4) by simp
      show "length imgs \<le> x_index ?t' + concurrency * length gs"
        using Cons.prems(5) by simp
    qed
    then obtain d where "export_through env ?t' gs = Inr d"
      and "file_name d = x_folder t @ lit ''.zip''"
      and "length (archive d) = length ?z +
        length (filter (\<lambda>img. transcode env img \<noteq> None) (drop (?i + concurrency) imgs))"
      by auto
    with count have "export_through env ?t' gs = Inr d \<and> file_name d = x_folder t @ lit ''.zip''
      \<and> length (archive d) = length (x_zip t) +
          length (filter (\<lambda>img. transcode env img \<noteq> None) (drop ?i imgs))"
      by (simp only:)
    then show ?thesis
      unfolding step by blast
  next
    case False
    then have "drop (?i + concurrency) imgs = []" by simp
    with count have "length ?z =
        length (x_zip t) + length (filter (\<lambda>img. transcode env img \<noteq> None) (drop ?i imgs))"
      by simp
    with False show ?thesis
      by (simp add: resume_tidy(1) [OF Cons.prems(1) short] g)
  qed
qed

lemma unchanged_entries:
  assumes "tidy t" and "x_batch t = take concurrency (drop (x_index t) imgs)"
    and "\<forall>g \<in> set gs. images g = imgs \<and> page g = pg"
    and "export_through env t gs = Inr d"
  shows "archive d = x_zip t @ entries_from env (x_folder t) pg (x_index t) (drop (x_index t) imgs)"
  using assms
proof (induction gs arbitrary: t)
  case Nil
  then show ?case by simp
next
  case (Cons g gs)
  let ?i = "x_index t"
  let ?z = "x_zip t @ entries_from env (x_folder t) pg ?i (x_batch t)"
  let ?t' = "\<lparr>x_folder = x_folder t, x_zip = ?z, x_index = ?i + concurrency,
      x_batch = take concurrency (drop (?i + concurrency) (images g))\<rparr>"
  have short: "length (x_batch t) \<le> concurrency"
    using Cons.prems(2) by simp
  have g: "images g = imgs" "page g = pg"
    using Cons.prems(3) by simp_all
  have split: "drop ?i imgs = x_batch t @ drop (?i + concurrency) imgs"
    using Cons.prems(2) by (simp add: add.commute [of ?i] flip: drop_drop)
  show ?case
  proof (cases "?i + concurrency < length imgs")
    case True
    then have full: "length (x_batch t) = concurrency"
      using Cons.prems(2) by simp
    have step: "export_through env t (g # gs) = export_through env ?t' gs"
      using True by (simp add: resume_tidy(1) [OF Cons.prems(1) short] g)
    have "archive d = x_zip ?t' @
        entries_from env (x_folder ?t') pg (x_index ?t') (drop (x_index ?t') imgs)"
    proof (rule Cons.IH)
      show "tidy ?t'" using resume_tidy(2) [OF Cons.prems(1) short, of env g] by (simp add: g)
      show "x_batch ?t' = take concurrency (drop (x_index ?t') imgs)" by (simp add: g)
      show "\<forall>g \<in> set gs. images g = imgs \<and> page g = pg" using Cons.prems(3) by simp
      show "export_through env ?t' gs = Inr d" using Cons.prems(4) step by simp
    qed
    moreover have "entries_from env (x_folder t) pg ?i (drop ?i imgs) =
        entries_from env (x_folder t) pg ?i (x_batch t) @
        entries_from env (x_folder t) pg (?i + concurrency) (drop (?i + concurrency) imgs)"
      using arg_cong [OF split, of "entries_from env (x_folder t) pg ?i"]
      by (simp add: entries_from_append full)
    ultimately show ?thesis
      by simp
  next
    case False
    then have "drop (?i + concurrency) imgs = []" by simp
    with split have "drop ?i imgs = x_batch t" by simp
    with False Cons.prems(4) show ?thesis
      by (auto simp: resume_tidy(1) [OF Cons.prems(1) short] g)
  qed
qed




lemma alone_through:
  "export_through env t (replicate n s) = Inr d \<Longrightarrow> export_alone env s t = d"
proof (induction n arbitrary: t)
  case 0
  then show ?case by simp
next
  case (Suc n)
  show ?case
  proof (cases "downloadZip_resume env t s")
    case (Inr d')
    with Suc.prems show ?thesis
      by (simp add: export_alone.simps [of env s t])
  next
    case (Inl t')
    with Suc.prems have "export_through env t' (replicate n s) = Inr d" by simp
    from Suc.IH [OF this] Inl show ?thesis
      by (simp add: export_alone.simps [of env s t])
  qed
qed

lemma downloadZip_entries:
  assumes "images s \<noteq> []"
  shows "downloadZip env s =
     (s\<lparr>error := None\<rparr>,
      Some \<lparr>file_name = folderName s @ lit ''.zip'',
            archive = entries_from env (folderName s) (page s) 0 (images s)\<rparr>)"
proof -
  define s' where "s' = s\<lparr>error := None\<rparr>"
  define t where "t = \<lparr>x_folder = folderName s, x_zip = [], x_index = 0,
      x_batch = take concurrency (drop 0 (images s))\<rparr>"
  define gs where "gs = replicate (length (images s)) s'"
  have start: "downloadZip_start s = (s', Some t)"
    using assms by (simp add: downloadZip_start_def s'_def t_def)
  have tidy: "tidy t" using start by (rule tidy_start)
  have same: "\<forall>g \<in> set gs. images g = images s \<and> page g = page s"
    by (simp add: gs_def s'_def)
  have "length (images s) \<le> x_index t + concurrency * length gs"
    using concurrency_pos by (simp add: gs_def t_def)
  with tidy same assms obtain d where d: "export_through env t gs = Inr d"
    "file_name d = x_folder t @ lit ''.zip''"
    using unchanged_count [of t "images s" gs env] by (auto simp: t_def)
  from unchanged_entries [OF tidy _ same d(1)]
  have "archive d = entries_from env (folderName s) (page s) 0 (images s)"
    by (simp add: t_def)
  with d(2) have "d = \<lparr>file_name = folderName s @ lit ''.zip'',
      archive = entries_from env (folderName s) (page s) 0 (images s)\<rparr>"
    by (cases d) (simp add: t_def)
  moreover have "export_alone env s' t = d"
    using d(1) unfolding gs_def by (rule alone_through)
  ultimately show ?thesis
    by (simp add: downloadZip_def start s'_def)
qed

lemma placeholder_fails:
  "loadImage env None = None \<Longrightarrow> \<not> is_live img \<Longrightarrow> transcode env img = None"
  by (cases img) (simp_all add: is_live_def transcode_def slot_url_def)

lemma live_count:
  assumes "loadImage env None = None"
  shows "length (filter (\<lambda>img. transcode env img \<noteq> None) imgs) +
      length (filter (\<lambda>img. is_live img \<and> transcode env img = None) imgs) =
    length (filter is_live imgs)"
proof (induction imgs)
  case Nil
  then show ?case by simp
next
  case (Cons img imgs)
  then show ?case
    using placeholder_fails [OF assms, of img] by (cases "is_live img") auto
qed

text \<open>
  C4, amended. On an empty collection \<^verbatim>\<open>downloadZip\<close> returns at once: no archive,
  the state untouched. Otherwise the export starts, and when the collection is the same
  at each of its batches (one state for each batch, enough of them for the collection)
  it ends with an archive, whichever slots fail: a failed slot is left out and the loop
  goes on. In a browser in which the load of an undefined source fails, the entries of
  that archive and the live slots whose transcode fails add up to the live slots: with
  \<open>N\<close> live slots of which \<open>k\<close> fail there are \<open>N - k\<close> entries. What the export makes
  of a placeholder whose load succeeds is not part of the statement.
\<close>

theorem export_entries:
  "(images s = [] \<longrightarrow> downloadZip_start s = (s, None) \<and> downloadZip env s = (s, None))
   \<and> (images s \<noteq> [] \<longrightarrow>
        (\<exists>t. downloadZip_start s = (s\<lparr>error := None\<rparr>, Some t)
           \<and> ((\<forall>g \<in> set gs. images g = images s) \<and> length (images s) \<le> concurrency * length gs \<longrightarrow>
                (\<exists>d. export_through env t gs = Inr d
                   \<and> (loadImage env None = None \<longrightarrow>
                        length (archive d) +
                          length (filter (\<lambda>img. is_live img \<and> transcode env img = None) (images s)) =
                        length (filter is_live (images s)))))))"
proof (intro conjI impI)
  assume "images s = []"
  then show "downloadZip_start s = (s, None)" "downloadZip env s = (s, None)"
    by (simp_all add: downloadZip_def downloadZip_start_def)
next
  assume nonempty: "images s \<noteq> []"
  define t where "t = \<lparr>x_folder = folderName s, x_zip = [], x_index = 0,
      x_batch = take concurrency (drop 0 (images s))\<rparr>"
  have start: "downloadZip_start s = (s\<lparr>error := None\<rparr>, Some t)"
    using nonempty by (simp add: downloadZip_start_def t_def)
  have through: "\<exists>d. export_through env t gs = Inr d
      \<and> (loadImage env None = None \<longrightarrow>
            length (archive d) +
              length (filter (\<lambda>img. is_live img \<and> transcode env img = None) (images s)) =
            length (filter is_live (images s)))"
    if same: "\<forall>g \<in> set gs. images g = images s"
      and enough: "length (images s) \<le> concurrency * length gs"
  proof -
    from nonempty same enough obtain d where d: "export_through env t gs = Inr d"
      "length (archive d) = length (filter (\<lambda>img. transcode env img \<noteq> None) (images s))"
      using unchanged_count [of t "images s" gs env] tidy_start [OF start]
      by (auto simp: t_def)
    then show ?thesis
      using live_count [of env "images s"] by auto
  qed
  show "\<exists>t. downloadZip_start s = (s\<lparr>error := None\<rparr>, Some t)
      \<and> ((\<forall>g \<in> set gs. images g = images s) \<and> length (images s) \<le> concurrency * length gs \<longrightarrow>
           (\<exists>d. export_through env t gs = Inr d
              \<and> (loadImage env None = None \<longrightarrow>
                   length (archive d) +
                     length (filter (\<lambda>img. is_live img \<and> transcode env img = None) (images s)) =
                   length (filter is_live (images s)))))"
  proof (intro exI [of _ t] conjI impI)
    show "downloadZip_start s = (s\<lparr>error := None\<rparr>, Some t)"
      by (rule start)
  next
    assume "(\<forall>g \<in> set gs. images g = images s) \<and> length (images s) \<le> concurrency * length gs"
    then have "\<forall>g \<in> set gs. images g = images s"
      and "length (images s) \<le> concurrency * length gs"
      by simp_all
    then show "\<exists>d. export_through env t gs = Inr d
        \<and> (loadImage env None = None \<longrightarrow>
             length (archive d) +
               length (filter (\<lambda>img. is_live img \<and> transcode env img = None) (images s)) =
             length (filter is_live (images s)))"
      by (rule through)
  qed
qed

text \<open>The run in which the page changes while the export is suspended.\<close>

lemmas export_defs = downloadZip_start_def downloadZip_resume_def folderName_def entry_name_def
  add_result_def process_image_def ext_of_def transcode_def slot_url_def show_int_def
  show_nat.simps digit_char_def is_space_def concurrency_def

lemma transcode_defined: "transcode browser_defined (Item it) = Some jpeg_blob"
  by (simp add: transcode_def browser_defined_def slot_url_def)

lemma first_six: "take 6 (map Item fifty_items) = map Item (map numbered_item [0..<6])"
  by (simp add: fifty_items_def take_map)

lemma page2_short_grid:
  "page (grid_of page2_short) = 2"
  "images (grid_of page2_short) = [Item item_x, Item item_y]"
  unfolding page2_short_def run_def
  by (simp_all add: full_page_grid fetch_defs req_page2_def answer_with_def)

lemma crossed_run:
  "downloadZip_start (grid_of full_page) = (grid_of full_page, Some full_page_export)"
  "export_through browser_defined full_page_export [grid_of page2_short] = Inr crossed_download"
proof -
  show "downloadZip_start (grid_of full_page) = (grid_of full_page, Some full_page_export)"
    by (simp add: downloadZip_start_def full_page_grid length_fifty_items full_page_export_def
          folderName_def show_int_def show_nat.simps digit_char_def is_space_def concurrency_def
          first_six)
  have six: "[0..<6] = [0, 1, 2, 3, 4, 5]"
    by (simp add: upt_rec)
  show "export_through browser_defined full_page_export [grid_of page2_short] = Inr crossed_download"
    by (simp add: full_page_export_def crossed_download_def page2_short_grid six
          downloadZip_resume_def Let_def concurrency_def process_image_transcode transcode_defined
          add_result_def entry_name_def ext_of_def show_int_def show_nat.simps digit_char_def
          jpeg_blob_def)
qed

text \<open>
  C4, as stated, fails. Page 1 shows fifty live images, none of which fails in a browser
  that loads every defined source and no undefined one. The export is started and is
  suspended for its first batch of six. The forward button is enabled and asks for page
  2, which comes back with two hits. The first batch then completes: the loop variable
  is 6, the collection has two slots, and the loop ends. The archive that is saved has
  six entries, not fifty.
\<close>

theorem export_cut_short:
  "images (grid_of full_page) = map Item fifty_items
   \<and> length (filter is_live (images (grid_of full_page))) = 50
   \<and> filter (\<lambda>img. is_live img \<and> transcode browser_defined img = None) (images (grid_of full_page)) = []
   \<and> loadImage browser_defined None = None
   \<and> downloadZip_start (grid_of full_page) = (grid_of full_page, Some full_page_export)
   \<and> nextPage (grid_of full_page) = Some 2
   \<and> images (grid_of page2_short) = [Item item_x, Item item_y]
   \<and> export_through browser_defined full_page_export [grid_of page2_short] = Inr crossed_download
   \<and> length (archive crossed_download) = 6"
proof (intro conjI)
  show "images (grid_of full_page) = map Item fifty_items"
    by (simp add: full_page_grid)
  have "filter is_live (map Item fifty_items) = map Item fifty_items"
    by (simp add: is_live_def)
  then show "length (filter is_live (images (grid_of full_page))) = 50"
    by (simp add: full_page_grid length_fifty_items)
  show "filter (\<lambda>img. is_live img \<and> transcode browser_defined img = None)
      (images (grid_of full_page)) = []"
    by (simp add: full_page_grid filter_empty_conv transcode_defined)
  show "loadImage browser_defined None = None"
    by (simp add: browser_defined_def)
  show "downloadZip_start (grid_of full_page) = (grid_of full_page, Some full_page_export)"
    by (rule crossed_run)
  show "nextPage (grid_of full_page) = Some 2"
    by (simp add: full_page_grid nextPage_def)
  show "images (grid_of page2_short) = [Item item_x, Item item_y]"
    by (rule page2_short_grid)
  show "export_through browser_defined full_page_export [grid_of page2_short] = Inr crossed_download"
    by (rule crossed_run)
  show "length (archive crossed_download) = 6"
    by (simp add: crossed_download_def)
qed

text \<open>
  C4 on three grids: the empty grid; a grid with a placeholder between two live images
  that both load; a grid of three live images of which the second does not load.
\<close>

theorem export_entries_witness:
  "images (setup_grid (lit ''cat'') 1) = []
   \<and> downloadZip_start (setup_grid (lit ''cat'') 1) = (setup_grid (lit ''cat'') 1, None)
   \<and> images (grid_of one_settled) = [Item item_a, Placeholder, Item item_c]
   \<and> loadImage browser_strict None = None
   \<and> length (images (grid_of one_settled)) \<le> concurrency * length [grid_of one_settled]
   \<and> length (filter is_live (images (grid_of one_settled))) = 2
   \<and> length (filter (\<lambda>img. is_live img \<and> transcode browser_strict img = None)
         (images (grid_of one_settled))) = 0
   \<and> export_through browser_strict
        \<lparr>x_folder = lit ''images_cat_page1'', x_zip = [], x_index = 0,
         x_batch = [Item item_a, Placeholder, Item item_c]\<rparr>
        [grid_of one_settled] =
       Inr \<lparr>file_name = lit ''images_cat_page1.zip'',
            archive = [(lit ''images_cat_page1/image_1_1.jpeg'', jpeg_blob),
                       (lit ''images_cat_page1/image_1_3.jpeg'', jpeg_blob)]\<rparr>
   \<and> images cat_grid = [Item item_a, Item item_b, Item item_c]
   \<and> transcode browser_strict (Item item_b) = None
   \<and> length (filter is_live (images cat_grid)) = 3
   \<and> length (filter (\<lambda>img. is_live img \<and> transcode browser_strict img = None) (images cat_grid)) = 1
   \<and> export_through browser_strict
        \<lparr>x_folder = lit ''images_cat_page1'', x_zip = [], x_index = 0,
         x_batch = [Item item_a, Item item_b, Item item_c]\<rparr>
        [cat_grid] =
       Inr \<lparr>file_name = lit ''images_cat_page1.zip'',
            archive = [(lit ''images_cat_page1/image_1_1.jpeg'', jpeg_blob),
                       (lit ''images_cat_page1/image_1_3.jpeg'', jpeg_blob)]\<rparr>"
  using export_entries [of "setup_grid (lit ''cat'') 1" browser_strict "[]"]
    export_entries [of "grid_of one_settled" browser_strict "[grid_of one_settled]"]
    export_entries [of cat_grid browser_strict "[cat_grid]"]
  by (simp add: setup_grid_def one_settled_def run_def example_defs removal_defs Let_def
        browser_strict_def export_defs is_live_def jpeg_blob_def item_a_def item_b_def item_c_def)

subsection \<open>The names of an export\<close>





lemma collapse_examples:
  "collapse False (lit ''black  cat'') = lit ''black_cat''"
  "collapse False (lit '' a b '') = lit ''_a_b_''"
  "collapse False (lit ''cat'') = lit ''cat''"
  "collapse False ([0x43A, 0x43E, 0x442, 0x3000, 0x2003, 0xFEFF] @ lit ''cat'') =
     [0x43A, 0x43E, 0x442] @ lit ''_cat''"
  "collapse False spaced_query = lit ''black_'' @ [0x43A, 0x43E, 0x442] @ lit ''_cat''"
  by (simp_all add: is_space_def spaced_query_def)











end
